theory Spec2Isabelle
  imports Main "HOL-Library.Word"
begin

section \<open>VariadicTable: a shallow embedding of include/VariadicTable.h\<close>

text \<open>
  The class template \<open>VariadicTable<Ts...>\<close> stores header strings and rows of type
  \<open>std::tuple<Ts...>\<close>, computes one width per column and writes a bordered table to an
  output stream. The embedding keeps the fields of the class in a record, the stream in a
  second record, and every member function as a function on these.

  Integer types follow the usual 64-bit data model: \<open>unsigned int\<close> has 32 bits and
  \<open>size_t\<close> has 64. The number of columns is the number of template arguments, a
  compile-time constant far below either bound, and is kept as a natural number; the
  length of a \<open>std::string\<close> is below \<open>2 ^ 64\<close>, so \<open>size()\<close> is the length of the
  character list read into \<open>size_t\<close>.
\<close>

type_synonym uint = "32 word"
type_synonym size_t = "64 word"

subsection \<open>Column types and values\<close>

text \<open>
  The table probes a column type \<open>T\<close> for two things only: whether \<open>T\<close> has a \<open>size()\<close>
  member (the template overload of \<open>sizeOfData\<close>) and whether \<open>std::is_arithmetic<T>\<close>
  holds (the first overload of \<open>justify\<close>). Three kinds of column type cover the cases:
  \<open>std::string\<close> (has \<open>size()\<close>, not arithmetic), \<open>const char *\<close> (neither), and the
  arithmetic types (\<open>int\<close>, \<open>double\<close>, ...; no members). A value carries the characters
  that \<open>operator<<\<close> writes for it when no field width is set; for a number this is
  its text under the stream's number formatting, which the table never changes.
\<close>

datatype cpp_type = StdString | CharPtr | Arithmetic

datatype cell = Str string | Chars string | Num string

fun type_of :: "cell \<Rightarrow> cpp_type" where
  "type_of (Str s) = StdString"
| "type_of (Chars s) = CharPtr"
| "type_of (Num s) = Arithmetic"

fun text_of :: "cell \<Rightarrow> string" where
  "text_of (Str s) = s"
| "text_of (Chars s) = s"
| "text_of (Num s) = s"

fun is_arithmetic :: "cpp_type \<Rightarrow> bool" where
  "is_arithmetic Arithmetic = True"
| "is_arithmetic StdString = False"
| "is_arithmetic CharPtr = False"

text \<open>\<open>std::string::size()\<close>.\<close>

definition string_size :: "string \<Rightarrow> size_t" where
  "string_size s = of_nat (length s)"

subsection \<open>The output stream\<close>

text \<open>
  The part of \<open>std::ostream\<close> that \<open>print\<close> reads or writes: the characters written
  so far, the field width (\<open>std::streamsize\<close>, signed), the adjustfield flags and the
  fill character. A formatted insertion pads the text to the field width with the fill
  character, after the text when the adjustment is \<open>left\<close> and before it otherwise, and
  resets the width to 0; a width that is not larger than the text adds nothing. (For a
  number the adjustment \<open>internal\<close> would pad after the sign; \<open>print\<close> sets \<open>left\<close> or
  \<open>right\<close> before every value it writes with a width, so that case does not arise.)
\<close>

datatype adjust = AdjLeft | AdjRight | AdjInternal | AdjUnset

record ostream =
  buf :: string
  width :: int
  adjustfield :: adjust
  fill :: char

definition setw :: "int \<Rightarrow> ostream \<Rightarrow> ostream" where
  "setw n stream = stream\<lparr>width := n\<rparr>"

definition std_left :: "ostream \<Rightarrow> ostream" where
  "std_left stream = stream\<lparr>adjustfield := AdjLeft\<rparr>"

definition std_right :: "ostream \<Rightarrow> ostream" where
  "std_right stream = stream\<lparr>adjustfield := AdjRight\<rparr>"

definition padded :: "ostream \<Rightarrow> string \<Rightarrow> string" where
  "padded stream s =
     (let pad = replicate (nat (width stream - int (length s))) (fill stream)
      in if adjustfield stream = AdjLeft then s @ pad else pad @ s)"

definition put :: "string \<Rightarrow> ostream \<Rightarrow> ostream" where
  "put s stream = stream\<lparr>buf := buf stream @ padded stream s, width := 0\<rparr>"

definition newline :: string where
  "newline = [CHR 0x0A]"

subsection \<open>The table\<close>

text \<open>
  The fields of the class, without the leading underscore of the source names. \<open>Ts\<close>
  is the template parameter pack, fixed for the life of the object.
\<close>

record table =
  Ts :: "cpp_type list"
  headers :: "string list"
  num_columns :: nat
  static_column_size :: uint
  data :: "cell list list"
  column_sizes :: "uint list"

text \<open>
  The constructor prints a message to \<open>std::cout\<close> and calls \<open>std::abort\<close> when the
  number of headers differs from the number of columns; the abort is the \<open>Inl\<close> result,
  carrying the message.
\<close>

definition VariadicTable :: "cpp_type list \<Rightarrow> string list \<Rightarrow> uint \<Rightarrow> string + table" where
  "VariadicTable ts hs static_size =
     (if length hs \<noteq> length ts
      then Inl ''Number of headers must match number of columns!''
      else Inr \<lparr>Ts = ts, headers = hs, num_columns = length ts,
                 static_column_size = static_size, data = [], column_sizes = []\<rparr>)"

definition addRow :: "cell list \<Rightarrow> table \<Rightarrow> table" where
  "addRow row t = t\<lparr>data := data t @ [row]\<rparr>"

text \<open>
  \<open>justify<T>(0)\<close>: overload resolution picks \<open>std::right\<close> when \<open>T\<close> is arithmetic and
  \<open>std::left\<close> otherwise.
\<close>

definition justify :: "cpp_type \<Rightarrow> ostream \<Rightarrow> ostream" where
  "justify T = (if is_arithmetic T then std_right else std_left)"

text \<open>
  \<open>print_each<I>\<close>: template recursion over the tuple positions, ending at
  \<open>I = tuple_size\<close>. The width goes through \<open>std::setw(int)\<close>, so the
  \<open>unsigned int\<close> is read as a signed 32-bit value.
\<close>

function print_each_from :: "table \<Rightarrow> cell list \<Rightarrow> ostream \<Rightarrow> nat \<Rightarrow> ostream" where
  "print_each_from t row stream I =
     (if I < length (Ts t)
      then print_each_from t row
             (put ''|'' (put (text_of (row ! I))
                (justify (Ts t ! I) (setw (sint (column_sizes t ! I)) stream))))
             (Suc I)
      else stream)"
  by pat_completeness auto
termination
  by (relation "measure (\<lambda>(t, row, stream, I). length (Ts t) - I)") auto

definition print_each :: "table \<Rightarrow> cell list \<Rightarrow> ostream \<Rightarrow> ostream" where
  "print_each t row stream = print_each_from t row stream 0"

text \<open>
  \<open>sizeOfData\<close>: the template overload is viable exactly when \<open>T\<close> has a \<open>size()\<close>
  member and then returns \<open>data.size()\<close>; every other type falls to the \<open>(...)\<close>
  overload, which returns \<open>_static_column_size\<close>.
\<close>

fun sizeOfData :: "table \<Rightarrow> cpp_type \<Rightarrow> cell \<Rightarrow> size_t" where
  "sizeOfData t StdString d = string_size (text_of d)"
| "sizeOfData t CharPtr d = ucast (static_column_size t)"
| "sizeOfData t Arithmetic d = ucast (static_column_size t)"

text \<open>\<open>size_each<I>\<close>: stores the \<open>size_t\<close> result into a vector of \<open>unsigned int\<close>.\<close>

function size_each_from :: "table \<Rightarrow> cell list \<Rightarrow> uint list \<Rightarrow> nat \<Rightarrow> uint list" where
  "size_each_from t row sizes I =
     (if I < length (Ts t)
      then size_each_from t row
             (sizes[I := ucast (sizeOfData t (Ts t ! I) (row ! I))]) (Suc I)
      else sizes)"
  by pat_completeness auto
termination
  by (relation "measure (\<lambda>(t, row, sizes, I). length (Ts t) - I)") auto

definition size_each :: "table \<Rightarrow> cell list \<Rightarrow> uint list \<Rightarrow> uint list" where
  "size_each t row sizes = size_each_from t row sizes 0"

text \<open>\<open>std::vector::resize\<close>: keeps the first \<open>n\<close> elements and fills up with zeros.\<close>

definition resize :: "uint list \<Rightarrow> nat \<Rightarrow> uint list" where
  "resize xs n = take n xs @ replicate (n - length xs) 0"

text \<open>
  \<open>size_columns\<close>: the widths start at the header sizes; every row is measured into
  the temporary vector and the maximum is taken position by position.
\<close>

definition size_columns :: "table \<Rightarrow> table" where
  "size_columns t =
     (let sizes0 = resize (column_sizes t) (num_columns t);
          tmp0 = replicate (num_columns t) (0 :: uint);
          sizes1 = fold (\<lambda>i cs. cs[i := ucast (string_size (headers t ! i))])
                     [0..<num_columns t] sizes0;
          (sizes2, tmp2) =
            fold (\<lambda>row (cs, tmp).
                    let tmp' = size_each t row tmp
                    in (fold (\<lambda>i cs. cs[i := max (cs ! i) (tmp' ! i)])
                          [0..<num_columns t] cs, tmp'))
                 (data t) (sizes1, tmp0)
      in t\<lparr>column_sizes := sizes2\<rparr>)"

text \<open>
  \<open>print\<close>, in the order of the source: the widths, the total width, the top rule, the
  header line, the rule below it, one line per row, the closing rule. \<open>header_half\<close>
  is the local \<open>half\<close> of the header loop: \<open>_column_sizes[i] / 2\<close> as
  \<open>unsigned int\<close>, then \<open>half -= _headers[i].size() / 2\<close>, a subtraction in
  \<open>size_t\<close> whose result is stored back into the \<open>unsigned int\<close>.
\<close>

definition total_width :: "table \<Rightarrow> uint" where
  "total_width t = fold (\<lambda>col_size tw. tw + col_size) (column_sizes t) (of_nat (num_columns t) + 1)"

definition print_rule :: "uint \<Rightarrow> ostream \<Rightarrow> ostream" where
  "print_rule tw stream = put newline (put (replicate (unat tw) CHR ''-'') stream)"

definition header_half :: "table \<Rightarrow> nat \<Rightarrow> uint" where
  "header_half t i =
     (let half = column_sizes t ! i div 2
      in ucast ((ucast half :: size_t) - string_size (headers t ! i) div 2))"

definition print_header :: "table \<Rightarrow> nat \<Rightarrow> ostream \<Rightarrow> ostream" where
  "print_header t i stream =
     put ''|'' (put (replicate (unat (header_half t i)) CHR '' '' @ headers t ! i)
       (std_left (setw (sint (column_sizes t ! i)) stream)))"

definition print_headers :: "table \<Rightarrow> ostream \<Rightarrow> ostream" where
  "print_headers t stream =
     put newline (fold (print_header t) [0..<num_columns t] (put ''|'' stream))"

definition print_row :: "table \<Rightarrow> cell list \<Rightarrow> ostream \<Rightarrow> ostream" where
  "print_row t row stream = put newline (print_each t row (put ''|'' stream))"

definition print :: "table \<Rightarrow> ostream \<Rightarrow> table \<times> ostream" where
  "print t0 stream =
     (let t = size_columns t0;
          tw = total_width t;
          s1 = print_rule tw stream;
          s2 = print_headers t s1;
          s3 = print_rule tw s2;
          s4 = fold (print_row t) (data t) s3;
          s5 = print_rule tw s4
      in (t, s5))"

subsection \<open>Closed forms and the class invariant\<close>

text \<open>
  What \<open>size_columns\<close> stores for one header and for one cell, as \<open>unsigned int\<close>,
  and the running maximum over the rows that the two nested loops compute for column
  \<open>i\<close>.
\<close>

definition header_size :: "table \<Rightarrow> nat \<Rightarrow> uint" where
  "header_size t i = ucast (string_size (headers t ! i))"

definition display_size :: "table \<Rightarrow> nat \<Rightarrow> cell list \<Rightarrow> uint" where
  "display_size t i row = ucast (sizeOfData t (Ts t ! i) (row ! i))"

definition column_width :: "table \<Rightarrow> nat \<Rightarrow> uint" where
  "column_width t i = fold (\<lambda>row w. max w (display_size t i row)) (data t) (header_size t i)"

text \<open>
  The characters that \<open>print\<close> writes, line by line, for a table whose widths are
  computed and a stream with fill character \<open>c\<close>: the rule, the header line with
  one field per column, and one line per row with one field per cell. A field is the
  text and its padding, followed by the separator.
\<close>

definition rule_line :: "table \<Rightarrow> string" where
  "rule_line t = replicate (unat (total_width t)) CHR ''-''"

definition header_field :: "table \<Rightarrow> char \<Rightarrow> nat \<Rightarrow> string" where
  "header_field t c i =
     (let s = replicate (unat (header_half t i)) CHR '' '' @ headers t ! i
      in s @ replicate (nat (sint (column_sizes t ! i) - int (length s))) c @ ''|'')"

definition header_line :: "table \<Rightarrow> char \<Rightarrow> string" where
  "header_line t c = ''|'' @ concat (map (header_field t c) [0..<num_columns t])"

definition cell_field :: "table \<Rightarrow> char \<Rightarrow> cell list \<Rightarrow> nat \<Rightarrow> string" where
  "cell_field t c row i =
     (let s = text_of (row ! i);
          pad = replicate (nat (sint (column_sizes t ! i) - int (length s))) c
      in (if is_arithmetic (Ts t ! i) then pad @ s else s @ pad) @ ''|'')"

definition row_line :: "table \<Rightarrow> char \<Rightarrow> cell list \<Rightarrow> string" where
  "row_line t c row = ''|'' @ concat (map (cell_field t c row) [0..<length (Ts t)])"

definition print_lines :: "table \<Rightarrow> char \<Rightarrow> string list" where
  "print_lines t c =
     [rule_line t, header_line t c, rule_line t] @ map (row_line t c) (data t) @ [rule_line t]"

text \<open>
  The width a line should have: one separator, then every column's width and one more
  separator.
\<close>

definition line_width :: "table \<Rightarrow> nat" where
  "line_width t = 1 + sum_list (map (\<lambda>w. unat w + 1) (column_sizes t))"

text \<open>
  The display length of a value as a natural number: the result of \<open>size()\<close> when
  the declared type has that member, the fallback width otherwise.
\<close>

fun has_size_member :: "cpp_type \<Rightarrow> bool" where
  "has_size_member StdString = True"
| "has_size_member CharPtr = False"
| "has_size_member Arithmetic = False"

definition display_length :: "table \<Rightarrow> cpp_type \<Rightarrow> cell \<Rightarrow> nat" where
  "display_length t T d =
     (if has_size_member T then length (text_of d) else unat (static_column_size t))"

text \<open>
  The C++ type system makes every row a \<open>std::tuple<Ts...>\<close>; the constructor makes
  the number of headers equal to the number of columns. \<open>valid\<close> is this invariant of
  every table object.
\<close>

definition well_typed :: "cpp_type list \<Rightarrow> cell list \<Rightarrow> bool" where
  "well_typed ts row = (map type_of row = ts)"

definition valid :: "table \<Rightarrow> bool" where
  "valid t = (num_columns t = length (Ts t) \<and> length (headers t) = num_columns t \<and>
              list_all (well_typed (Ts t)) (data t))"

subsection \<open>Example objects\<close>

text \<open>
  A stream in its initial state, and the table of the class comment:
  \<open>VariadicTable<std::string, double, int, std::string>\<close> with one row.
\<close>

definition cout0 :: ostream where
  "cout0 = \<lparr>buf = [], width = 0, adjustfield = AdjUnset, fill = CHR '' ''\<rparr>"

definition fred_table :: table where
  "fred_table =
     \<lparr>Ts = [StdString, Arithmetic, Arithmetic, StdString],
      headers = [''Name'', ''Weight'', ''Age'', ''Brother''],
      num_columns = 4, static_column_size = 0,
      data = [[Str ''Fred'', Num ''193.4'', Num ''35'', Str ''Sam'']],
      column_sizes = []\<rparr>"

text \<open>\<open>VariadicTable<std::string, int>\<close> with two rows; the first column is wider than its header.\<close>

definition pets_table :: table where
  "pets_table =
     \<lparr>Ts = [StdString, Arithmetic], headers = [''Pet'', ''Age''],
      num_columns = 2, static_column_size = 0,
      data = [[Str ''Hamster'', Num ''2''], [Str ''Cat'', Num ''11'']],
      column_sizes = []\<rparr>"

text \<open>\<open>VariadicTable<std::string, int>\<close> as the constructor leaves it, without rows.\<close>

definition empty_table :: table where
  "empty_table =
     \<lparr>Ts = [StdString, Arithmetic], headers = [''Name'', ''Age''],
      num_columns = 2, static_column_size = 0, data = [], column_sizes = []\<rparr>"

text \<open>\<open>VariadicTable<std::string>\<close> with a value one character longer than the header.\<close>

definition fido_table :: table where
  "fido_table =
     \<lparr>Ts = [StdString], headers = [''Pet''], num_columns = 1, static_column_size = 0,
      data = [[Str ''Fido'']], column_sizes = []\<rparr>"

text \<open>\<open>VariadicTable<double>\<close> with a value whose text is longer than the header.\<close>

definition weight_table :: table where
  "weight_table =
     \<lparr>Ts = [Arithmetic], headers = [''A''], num_columns = 1, static_column_size = 0,
      data = [[Num ''193.4'']], column_sizes = []\<rparr>"

text \<open>A table with one \<open>std::string\<close> column whose header has \<open>2 ^ 32\<close> characters.\<close>

definition long_header_table :: table where
  "long_header_table =
     \<lparr>Ts = [StdString], headers = [replicate (2 ^ 32) CHR ''x''],
      num_columns = 1, static_column_size = 0, data = [], column_sizes = []\<rparr>"

text \<open>
  \<open>VariadicTable<int>\<close> constructed with the fallback width \<open>2 ^ 31\<close>, with one row.
\<close>

definition wide_table :: table where
  "wide_table =
     \<lparr>Ts = [Arithmetic], headers = [''A''], num_columns = 1,
      static_column_size = 2147483648, data = [[Num ''5'']], column_sizes = []\<rparr>"

text \<open>
  A stream on which the caller has set a fill character and a field width that no
  insertion has consumed yet: \<open>stream << std::setfill('*') << std::setw(15)\<close>.
\<close>

definition cout_pending :: ostream where
  "cout_pending = \<lparr>buf = [], width = 15, adjustfield = AdjUnset, fill = CHR ''*''\<rparr>"

section \<open>Loops and recursions in closed form\<close>

declare size_each_from.simps [simp del]
declare print_each_from.simps [simp del]

text \<open>
  The index loops of \<open>size_columns\<close> and the template recursion \<open>size_each\<close> write every
  position of a vector once; after them the width of column \<open>i\<close> is \<open>column_width t i\<close>.
\<close>

lemma fold_update_length:
  "length (fold (\<lambda>i cs. cs[i := g i (cs ! i)]) [0..<n] cs) = length cs"
  by (induction n) simp_all

lemma fold_update_nth:
  "j < length cs \<Longrightarrow>
   fold (\<lambda>i cs. cs[i := g i (cs ! i)]) [0..<n] cs ! j = (if j < n then g j (cs ! j) else cs ! j)"
proof (induction n arbitrary: j)
  case 0
  then show ?case by simp
next
  case (Suc n)
  let ?F = "fold (\<lambda>i cs. cs[i := g i (cs ! i)]) [0..<n] cs"
  have len: "length ?F = length cs" by (rule fold_update_length)
  show ?case
  proof (cases "j = n")
    case True
    with Suc.prems have "?F ! n = cs ! n" using Suc.IH [of n] by simp
    with True Suc.prems len show ?thesis by simp
  next
    case False
    with Suc.prems len show ?thesis using Suc.IH [of j] by (auto simp: nth_list_update)
  qed
qed

lemma size_each_from_length:
  "length (size_each_from t row sizes I) = length sizes"
  by (induction t row sizes I rule: size_each_from.induct)
     (simp add: size_each_from.simps)

lemma size_each_from_nth:
  "j < length sizes \<Longrightarrow>
   size_each_from t row sizes I ! j =
     (if I \<le> j \<and> j < length (Ts t) then ucast (sizeOfData t (Ts t ! j) (row ! j)) else sizes ! j)"
proof (induction t row sizes I rule: size_each_from.induct)
  case (1 t row sizes I)
  show ?case
  proof (cases "I < length (Ts t)")
    case True
    have "I \<le> j \<and> \<not> Suc I \<le> j \<longleftrightarrow> j = I" by auto
    with True 1 show ?thesis
      by (subst size_each_from.simps) (auto simp: nth_list_update)
  next
    case False
    then show ?thesis
      by (subst size_each_from.simps) auto
  qed
qed

lemma size_each_eq:
  "length sizes = length (Ts t) \<Longrightarrow>
   size_each t row sizes = map (\<lambda>i. display_size t i row) [0..<length (Ts t)]"
  by (rule nth_equalityI)
     (simp_all add: size_each_def size_each_from_length size_each_from_nth display_size_def)

lemma max_loop_eq:
  "length cs = n \<Longrightarrow> length tmp = n \<Longrightarrow>
   fold (\<lambda>i cs. cs[i := max (cs ! i) (tmp ! i)]) [0..<n] cs
     = map (\<lambda>i. max (cs ! i) (tmp ! i)) [0..<n]"
  using fold_update_length [where g = "\<lambda>i x. max x (tmp ! i)" and n = n and cs = cs]
        fold_update_nth [where g = "\<lambda>i x. max x (tmp ! i)" and n = n and cs = cs]
  by (intro nth_equalityI) simp_all

lemma header_loop_eq:
  "length cs = n \<Longrightarrow>
   fold (\<lambda>i cs. cs[i := h i]) [0..<n] cs = map h [0..<n]"
  using fold_update_length [where g = "\<lambda>i x. h i" and n = n and cs = cs]
        fold_update_nth [where g = "\<lambda>i x. h i" and n = n and cs = cs]
  by (intro nth_equalityI) simp_all

lemma rows_loop_eq:
  "length cs = length (Ts t) \<Longrightarrow> length tmp = length (Ts t) \<Longrightarrow>
   fst (fold (\<lambda>row (cs, tmp).
               let tmp' = size_each t row tmp
               in (fold (\<lambda>i cs. cs[i := max (cs ! i) (tmp' ! i)]) [0..<length (Ts t)] cs, tmp'))
          rows (cs, tmp))
   = map (\<lambda>i. fold (\<lambda>row w. max w (display_size t i row)) rows (cs ! i)) [0..<length (Ts t)]"
proof (induction rows arbitrary: cs tmp)
  case Nil
  then show ?case using map_nth [of cs] by simp
next
  case (Cons row rows)
  let ?n = "length (Ts t)"
  let ?tmp = "size_each t row tmp"
  let ?cs = "map (\<lambda>i. max (cs ! i) (display_size t i row)) [0..<?n]"
  have tmp: "?tmp = map (\<lambda>i. display_size t i row) [0..<?n]"
    using Cons.prems by (simp add: size_each_eq)
  have step: "fold (\<lambda>i cs. cs[i := max (cs ! i) (?tmp ! i)]) [0..<?n] cs = ?cs"
    using Cons.prems by (subst max_loop_eq) (simp_all add: tmp)
  have "length ?cs = ?n" "length ?tmp = ?n" by (simp_all add: tmp)
  from Cons.IH [OF this] show ?case
    by (simp add: step Let_def)
qed

lemma resize_length: "length (resize xs n) = n"
  by (simp add: resize_def)

lemma size_columns_sizes:
  "valid t \<Longrightarrow> column_sizes (size_columns t) = map (column_width t) [0..<num_columns t]"
proof -
  assume v: "valid t"
  then have n: "num_columns t = length (Ts t)" by (simp add: valid_def)
  let ?s1 = "map (header_size t) [0..<length (Ts t)]"
  have "length ?s1 = length (Ts t)" "length (replicate (length (Ts t)) (0::uint)) = length (Ts t)"
    by simp_all
  from rows_loop_eq [OF this, of "data t"] show ?thesis
    by (simp add: size_columns_def n Let_def split_beta header_loop_eq resize_length
                  header_size_def [abs_def] column_width_def [abs_def] cong: map_cong)
qed

lemma size_columns_nth:
  "valid t \<Longrightarrow> i < num_columns t \<Longrightarrow> column_sizes (size_columns t) ! i = column_width t i"
  by (simp add: size_columns_sizes)

lemma size_columns_length:
  "valid t \<Longrightarrow> length (column_sizes (size_columns t)) = num_columns t"
  by (simp add: size_columns_sizes)

lemma size_columns_fields [simp]:
  "headers (size_columns t) = headers t"
  "data (size_columns t) = data t"
  "Ts (size_columns t) = Ts t"
  "num_columns (size_columns t) = num_columns t"
  "static_column_size (size_columns t) = static_column_size t"
  by (simp_all add: size_columns_def Let_def split_beta)

lemma size_columns_update:
  "size_columns t = t\<lparr>column_sizes := column_sizes (size_columns t)\<rparr>"
  by (simp add: size_columns_def Let_def split_beta)

lemma size_columns_eq:
  "valid t \<Longrightarrow> size_columns t = t\<lparr>column_sizes := map (column_width t) [0..<num_columns t]\<rparr>"
  using size_columns_update [of t] by (simp add: size_columns_sizes)

lemma print_fst: "fst (print t stream) = size_columns t"
  by (simp add: print_def Let_def)

section \<open>The class invariant\<close>

text \<open>
  The constructor establishes \<open>valid\<close>, \<open>addRow\<close> with a row of the declared types and
  \<open>print\<close> keep it, and the widths that \<open>size_columns\<close> computes do not depend on the
  widths stored before.
\<close>

lemma valid_constructed: "VariadicTable ts hs static_size = Inr t \<Longrightarrow> valid t"
  by (auto simp: VariadicTable_def valid_def split: if_splits)

lemma valid_addRow: "valid t \<Longrightarrow> well_typed (Ts t) row \<Longrightarrow> valid (addRow row t)"
  by (simp add: valid_def addRow_def)

lemma sizeOfData_column_sizes [simp]:
  "sizeOfData (t\<lparr>column_sizes := cs\<rparr>) T d = sizeOfData t T d"
  by (cases T) simp_all

lemma column_width_column_sizes [simp]:
  "column_width (t\<lparr>column_sizes := cs\<rparr>) i = column_width t i"
  by (simp add: column_width_def header_size_def display_size_def)

lemma valid_column_sizes [simp]: "valid (t\<lparr>column_sizes := cs\<rparr>) = valid t"
  by (simp add: valid_def)

lemma valid_size_columns: "valid t \<Longrightarrow> valid (size_columns t)"
  by (simp add: size_columns_eq)

lemma valid_print: "valid t \<Longrightarrow> valid (fst (print t stream))"
  by (simp add: print_fst valid_size_columns)

lemma size_columns_forgets:
  "valid t \<Longrightarrow> size_columns (t\<lparr>column_sizes := cs\<rparr>) = size_columns t"
  by (simp add: size_columns_eq)

lemma size_columns_idem: "valid t \<Longrightarrow> size_columns (size_columns t) = size_columns t"
  using size_columns_forgets [of t "map (column_width t) [0..<num_columns t]"]
  by (simp add: size_columns_eq)


lemma fold_addRow_fields [simp]:
  "Ts (fold addRow rows t) = Ts t"
  "headers (fold addRow rows t) = headers t"
  "num_columns (fold addRow rows t) = num_columns t"
  "static_column_size (fold addRow rows t) = static_column_size t"
  by (induction rows arbitrary: t) (simp_all add: addRow_def)

section \<open>What the stream receives\<close>

text \<open>
  Every insertion appends to the buffer and resets the field width; on a stream with no
  pending width \<open>print\<close> appends the lines of \<open>print_lines\<close>, each followed by a newline.
\<close>

lemma put_simps [simp]:
  "buf (put s stream) = buf stream @ padded stream s"
  "width (put s stream) = 0"
  "fill (put s stream) = fill stream"
  "adjustfield (put s stream) = adjustfield stream"
  by (simp_all add: put_def)

lemma padded_width0 [simp]: "width stream = 0 \<Longrightarrow> padded stream s = s"
  by (simp add: padded_def)

lemma justify_simps [simp]:
  "buf (justify T stream) = buf stream"
  "width (justify T stream) = width stream"
  "fill (justify T stream) = fill stream"
  "adjustfield (justify T stream) = (if is_arithmetic T then AdjRight else AdjLeft)"
  by (simp_all add: justify_def std_left_def std_right_def)

lemma setw_simps [simp]:
  "buf (setw n stream) = buf stream"
  "width (setw n stream) = n"
  "fill (setw n stream) = fill stream"
  "adjustfield (setw n stream) = adjustfield stream"
  by (simp_all add: setw_def)

lemma std_left_simps [simp]:
  "buf (std_left stream) = buf stream"
  "width (std_left stream) = width stream"
  "fill (std_left stream) = fill stream"
  "adjustfield (std_left stream) = AdjLeft"
  by (simp_all add: std_left_def)

lemma cell_step:
  "buf (put ''|'' (put (text_of (row ! I)) (justify (Ts t ! I) (setw (sint (column_sizes t ! I)) stream))))
     = buf stream @ cell_field t (fill stream) row I"
  by (simp add: cell_field_def padded_def Let_def)

lemma print_each_from_fill: "fill (print_each_from t row stream I) = fill stream"
  by (induction t row stream I rule: print_each_from.induct)
     (subst print_each_from.simps, simp)

lemma print_each_from_width:
  "width stream = 0 \<Longrightarrow> width (print_each_from t row stream I) = 0"
  by (induction t row stream I rule: print_each_from.induct)
     (subst print_each_from.simps, simp)

lemma print_each_from_buf:
  "buf (print_each_from t row stream I)
     = buf stream @ concat (map (cell_field t (fill stream) row) [I..<length (Ts t)])"
proof (induction t row stream I rule: print_each_from.induct)
  case (1 t row stream I)
  show ?case
  proof (cases "I < length (Ts t)")
    case True
    with 1 show ?thesis
      by (subst print_each_from.simps) (simp add: upt_conv_Cons cell_step [simplified])
  next
    case False
    then show ?thesis
      by (subst print_each_from.simps) simp
  qed
qed

lemma fold_writes:
  assumes step: "\<And>x s. width s = 0 \<Longrightarrow>
            buf (f x s) = buf s @ g (fill s) x \<and> fill (f x s) = fill s \<and> width (f x s) = 0"
    and "width stream = 0"
  shows "buf (fold f xs stream) = buf stream @ concat (map (g (fill stream)) xs) \<and>
         fill (fold f xs stream) = fill stream \<and> width (fold f xs stream) = 0"
  using assms(2)
proof (induction xs arbitrary: stream)
  case Nil
  then show ?case by simp
next
  case (Cons x xs)
  from step [OF Cons.prems, of x] Cons.IH [of "f x stream"] show ?case by simp
qed

lemma print_row_writes:
  "width stream = 0 \<Longrightarrow>
   buf (print_row t row stream) = buf stream @ (row_line t (fill stream) row @ newline) \<and>
   fill (print_row t row stream) = fill stream \<and> width (print_row t row stream) = 0"
  by (simp add: print_row_def print_each_def print_each_from_buf print_each_from_width
                print_each_from_fill row_line_def)

lemma print_header_writes:
  "buf (print_header t i stream) = buf stream @ header_field t (fill stream) i \<and>
   fill (print_header t i stream) = fill stream \<and> width (print_header t i stream) = 0"
  by (simp add: print_header_def header_field_def padded_def Let_def)

lemma print_headers_writes:
  assumes "width stream = 0"
  shows "buf (print_headers t stream) = buf stream @ (header_line t (fill stream) @ newline) \<and>
         fill (print_headers t stream) = fill stream \<and> width (print_headers t stream) = 0"
proof -
  have "width (put ''|'' stream) = 0" by simp
  from fold_writes [where f = "print_header t" and g = "header_field t", OF _ this,
                    of "[0..<num_columns t]"]
  show ?thesis using assms
    by (simp add: print_headers_def header_line_def print_header_writes)
qed

lemma print_rule_writes:
  "width stream = 0 \<Longrightarrow>
   buf (print_rule (total_width t) stream) = buf stream @ (rule_line t @ newline) \<and>
   fill (print_rule (total_width t) stream) = fill stream \<and>
   width (print_rule (total_width t) stream) = 0"
  by (simp add: print_rule_def rule_line_def)

lemma print_rows_writes:
  assumes "width stream = 0"
  shows "buf (fold (print_row t) rows stream)
           = buf stream @ concat (map (\<lambda>row. row_line t (fill stream) row @ newline) rows) \<and>
         fill (fold (print_row t) rows stream) = fill stream \<and>
         width (fold (print_row t) rows stream) = 0"
  using fold_writes [where f = "print_row t" and g = "\<lambda>c row. row_line t c row @ newline",
                     OF print_row_writes assms] .

lemma print_writes:
  assumes "width stream = 0"
  shows "fst (print t stream) = size_columns t"
    and "buf (snd (print t stream))
           = buf stream @ concat (map (\<lambda>l. l @ newline) (print_lines (size_columns t) (fill stream)))"
    and "fill (snd (print t stream)) = fill stream"
    and "width (snd (print t stream)) = 0"
proof -
  let ?t = "size_columns t"
  let ?s1 = "print_rule (total_width ?t) stream"
  let ?s2 = "print_headers ?t ?s1"
  let ?s3 = "print_rule (total_width ?t) ?s2"
  let ?s4 = "fold (print_row ?t) (data ?t) ?s3"
  let ?s5 = "print_rule (total_width ?t) ?s4"
  note s1 = print_rule_writes [OF assms, of ?t]
  note s2 = print_headers_writes [of ?s1 ?t, OF s1 [THEN conjunct2, THEN conjunct2]]
  note s3 = print_rule_writes [of ?s2 ?t, OF s2 [THEN conjunct2, THEN conjunct2]]
  note s4 = print_rows_writes [of ?s3 ?t "data ?t", OF s3 [THEN conjunct2, THEN conjunct2]]
  note s5 = print_rule_writes [of ?s4 ?t, OF s4 [THEN conjunct2, THEN conjunct2]]
  have p: "print t stream = (?t, ?s5)" by (simp add: print_def Let_def)
  show "fst (print t stream) = size_columns t" by (simp add: p)
  show "fill (snd (print t stream)) = fill stream"
    by (simp only: p snd_conv s1 s2 s3 s4 s5)
  show "width (snd (print t stream)) = 0"
    by (simp only: p snd_conv s5)
  show "buf (snd (print t stream))
           = buf stream @ concat (map (\<lambda>l. l @ newline) (print_lines (size_columns t) (fill stream)))"
    by (simp only: p snd_conv s1 s2 s3 s4 s5 print_lines_def) (simp add: comp_def)
qed

lemma print_buf_lines:
  assumes "width stream = 0"
  shows "buf (snd (print t stream))
           = buf stream
             @ rule_line (size_columns t) @ newline
             @ header_line (size_columns t) (fill stream) @ newline
             @ rule_line (size_columns t) @ newline
             @ concat (map (\<lambda>row. row_line (size_columns t) (fill stream) row @ newline) (data t))
             @ rule_line (size_columns t) @ newline"
proof -
  have "concat (map (\<lambda>l. l @ newline) (print_lines (size_columns t) (fill stream)))
          = rule_line (size_columns t) @ newline
             @ header_line (size_columns t) (fill stream) @ newline
             @ rule_line (size_columns t) @ newline
             @ concat (map (\<lambda>row. row_line (size_columns t) (fill stream) row @ newline) (data t))
             @ rule_line (size_columns t) @ newline"
    by (simp add: print_lines_def comp_def)
  with print_writes(2) [OF assms, of t] show ?thesis by simp
qed

section \<open>Machine integers\<close>

text \<open>
  Conversions between \<open>unsigned int\<close>, \<open>size_t\<close>, \<open>int\<close> and the natural numbers, and
  the sums and maxima of the loops read as natural numbers.
\<close>

lemma uint_bound: "unat (x :: uint) < 4294967296"
  using unsigned_less [of x, where 'a = nat] by simp

lemma unat_size_t_of_uint: "unat (ucast (x :: uint) :: size_t) = unat x"
  using uint_bound [of x] by (simp add: unsigned_ucast_eq take_bit_eq_mod)

lemma uint_of_size_t_of_uint: "(ucast (ucast (x :: uint) :: size_t) :: uint) = x"
  by (rule ucast_up_ucast_id) (simp add: is_up)

lemma unat_string_size: "length s < 2 ^ 64 \<Longrightarrow> unat (string_size s) = length s"
  by (simp add: string_size_def unat_of_nat)

lemma unat_uint_of_string_size:
  "unat (ucast (string_size s) :: uint) = length s mod 2 ^ 32"
proof -
  have "(length s mod 2 ^ 64) mod 2 ^ 32 = length s mod (2 ^ 32 :: nat)"
    by (rule mod_mod_cancel) simp
  then show ?thesis
    by (simp add: string_size_def unsigned_ucast_eq unat_of_nat take_bit_eq_mod)
qed

lemma sint_uint_small:
  fixes w :: uint
  assumes "unat w < 2 ^ 31"
  shows "sint w = int (unat w)"
proof -
  have lt: "uint w < 2 ^ 31"
  proof -
    from assms have "int (unat w) < int (2 ^ 31)" by (simp only: of_nat_less_iff)
    then show ?thesis by simp
  qed
  have "sint w = signed_take_bit 31 (uint w)"
    by (simp add: sint_uint)
  also have "\<dots> = uint w"
  proof (rule signed_take_bit_int_eq_self)
    show "- (2 ^ 31) \<le> uint w" by (rule order_trans [of _ 0]) simp_all
    show "uint w < 2 ^ 31" by (rule lt)
  qed
  finally show ?thesis by simp
qed

lemma unat_max: "unat (max a b) = max (unat a) (unat b)"
  by (simp add: max_def word_le_nat_alt)

lemma unat_fold_max:
  "unat (fold (\<lambda>x w. max w (f x)) xs a) = fold (\<lambda>x w. max w (unat (f x))) xs (unat a)"
  by (induction xs arbitrary: a) (simp_all add: unat_max)

lemma fold_max_Max:
  fixes a :: "'a :: linorder"
  shows "fold (\<lambda>x w. max w (f x)) xs a = Max (insert a (f ` set xs))"
proof -
  have "(\<lambda>x w. max w (f x)) = (\<lambda>x. max (f x))"
    by (intro ext) (simp add: max.commute)
  then have "fold (\<lambda>x w. max w (f x)) xs a = fold max (map f xs) a"
    by (simp add: fold_map comp_def)
  also have "\<dots> = Max (set (a # map f xs))"
    by (rule Max.set_eq_fold [symmetric])
  finally show ?thesis by simp
qed

lemma fold_add_sum_list:
  fixes a :: uint
  shows "fold (\<lambda>col_size tw. tw + col_size) cs a = a + sum_list cs"
  by (induction cs arbitrary: a) (simp_all add: add.assoc)

lemma sum_list_of_nat_unat:
  fixes cs :: "uint list"
  shows "sum_list cs = of_nat (sum_list (map unat cs))"
  by (induction cs) simp_all

lemma sum_list_plus_one:
  fixes f :: "'a \<Rightarrow> nat"
  shows "sum_list (map (\<lambda>x. f x + 1) xs) = sum_list (map f xs) + length xs"
  by (induction xs) simp_all

lemma centre_parity:
  fixes w n :: nat
  assumes "n \<le> w"
  defines "lead \<equiv> w div 2 - n div 2"
  defines "trail \<equiv> w - (lead + n)"
  shows "lead + n + trail = w"
    and "odd (w - n) \<Longrightarrow> odd w \<Longrightarrow> trail = lead + 1"
    and "odd (w - n) \<Longrightarrow> even w \<Longrightarrow> lead = trail + 1"
    and "even (w - n) \<Longrightarrow> trail = lead"
proof -
  from assms(1) have le: "n div 2 \<le> w div 2" by (rule div_le_mono)
  show "lead + n + trail = w"
    unfolding lead_def trail_def using assms(1) le by arith
  show "trail = lead + 1" if "odd (w - n)" "odd w"
  proof -
    from that assms(1) have "even n" by simp
    with that(2) obtain a b where "w = 2 * a + 1" "n = 2 * b"
      by (auto elim!: oddE evenE)
    with assms(1) show ?thesis unfolding lead_def trail_def by simp
  qed
  show "lead = trail + 1" if "odd (w - n)" "even w"
  proof -
    from that assms(1) have "odd n" by simp
    with that(2) obtain a b where "w = 2 * a" "n = 2 * b + 1"
      by (auto elim!: oddE evenE)
    with assms(1) show ?thesis unfolding lead_def trail_def by simp
  qed
  show "trail = lead" if "even (w - n)"
  proof (cases "even w")
    case True
    with that assms(1) have "even n" by simp
    with True obtain a b where "w = 2 * a" "n = 2 * b" by (auto elim!: evenE)
    with assms(1) show ?thesis unfolding lead_def trail_def by simp
  next
    case False
    with that assms(1) have "odd n" by simp
    with False obtain a b where "w = 2 * a + 1" "n = 2 * b + 1" by (auto elim!: oddE)
    with assms(1) show ?thesis unfolding lead_def trail_def by simp
  qed
qed

section \<open>Widths and lengths as natural numbers\<close>

text \<open>
  Within the range of the integer types the computed widths are the maxima of the
  lengths, a header fits its column, and the fields of a line have the width of their
  column and one more character for the separator.
\<close>

lemma unat_header_size:
  "length (headers t ! i) < 2 ^ 32 \<Longrightarrow> unat (header_size t i) = length (headers t ! i)"
  by (simp add: header_size_def unat_uint_of_string_size)

lemma header_size_of_nat: "header_size t i = of_nat (length (headers t ! i))"
  by (rule word_unat_eq_iff [THEN iffD2])
     (simp add: header_size_def unat_uint_of_string_size unat_of_nat)

lemma unat_display_size:
  "display_length t (Ts t ! i) (row ! i) < 2 ^ 32 \<Longrightarrow>
   unat (display_size t i row) = display_length t (Ts t ! i) (row ! i)"
  by (cases "Ts t ! i")
     (simp_all add: display_size_def display_length_def unat_uint_of_string_size
        uint_of_size_t_of_uint)

lemma unat_column_width:
  assumes "length (headers t ! i) < 2 ^ 32"
    and "\<forall>row \<in> set (data t). display_length t (Ts t ! i) (row ! i) < 2 ^ 32"
  shows "unat (column_width t i)
           = Max (insert (length (headers t ! i))
                   ((\<lambda>row. display_length t (Ts t ! i) (row ! i)) ` set (data t)))"
proof -
  have "unat (column_width t i)
          = fold (\<lambda>row w. max w (unat (display_size t i row))) (data t) (unat (header_size t i))"
    by (simp add: column_width_def unat_fold_max)
  also have "\<dots> = Max (insert (unat (header_size t i))
                        ((\<lambda>row. unat (display_size t i row)) ` set (data t)))"
    by (rule fold_max_Max)
  also have "(\<lambda>row. unat (display_size t i row)) ` set (data t)
               = (\<lambda>row. display_length t (Ts t ! i) (row ! i)) ` set (data t)"
    using assms(2) by (intro image_cong refl) (simp add: unat_display_size)
  finally show ?thesis using assms(1) by (simp add: unat_header_size)
qed

lemma column_width_ge_header: "header_size t i \<le> column_width t i"
  by (simp add: column_width_def fold_max_Max)

lemma header_fits:
  assumes "valid t" "i < num_columns t" "length (headers t ! i) < 2 ^ 32"
  shows "length (headers t ! i) \<le> unat (column_sizes (size_columns t) ! i)"
proof -
  have "unat (header_size t i) \<le> unat (column_width t i)"
    using column_width_ge_header [of t i] by (simp add: word_le_nat_alt)
  with assms show ?thesis by (simp add: size_columns_nth unat_header_size)
qed

lemma size_columns_no_rows:
  assumes v: "valid t" and d: "data t = []"
  shows "column_sizes (size_columns t) = map (\<lambda>h. of_nat (length h)) (headers t)"
proof (rule nth_equalityI)
  from v have n: "length (headers t) = num_columns t" by (simp add: valid_def)
  show "length (column_sizes (size_columns t)) = length (map (\<lambda>h. of_nat (length h) :: uint) (headers t))"
    using v n by (simp add: size_columns_sizes)
  fix i assume "i < length (column_sizes (size_columns t))"
  with v have i: "i < num_columns t" by (simp add: size_columns_sizes)
  with v n d show "column_sizes (size_columns t) ! i = map (\<lambda>h. of_nat (length h)) (headers t) ! i"
    by (simp add: size_columns_sizes column_width_def header_size_of_nat)
qed

lemma header_half_exact:
  fixes w :: uint
  assumes len: "length h < 2 ^ 32" and le: "length h \<le> unat w"
  shows "string_size h div 2 \<le> ucast (w div 2)"
    and "unat (ucast ((ucast (w div 2) :: size_t) - string_size h div 2) :: uint)
           = unat w div 2 - length h div 2"
proof -
  from len have len64: "length h < 2 ^ 64" by simp
  have a: "unat (ucast (w div 2) :: size_t) = unat w div 2"
    by (simp add: unat_size_t_of_uint unat_div)
  have b: "unat (string_size h div 2) = length h div 2"
    using len64 by (simp add: unat_div unat_string_size)
  from le have "length h div 2 \<le> unat w div 2" by (rule div_le_mono)
  with a b show le64: "string_size h div 2 \<le> ucast (w div 2)"
    by (simp add: word_le_nat_alt)
  have "unat ((ucast (w div 2) :: size_t) - string_size h div 2) = unat w div 2 - length h div 2"
    using le64 by (simp add: unat_sub a b)
  moreover have "unat w div 2 - length h div 2 < 2 ^ 32"
    using uint_bound [of w] by simp
  ultimately show "unat (ucast ((ucast (w div 2) :: size_t) - string_size h div 2) :: uint)
           = unat w div 2 - length h div 2"
    by (simp add: unsigned_ucast_eq take_bit_eq_mod)
qed

lemma header_field_shape:
  assumes v: "valid t" and i: "i < num_columns t" and len: "length (headers t ! i) < 2 ^ 32"
    and small: "unat (column_sizes (size_columns t) ! i) < 2 ^ 31"
  shows "header_field (size_columns t) c i
           = replicate (unat (column_sizes (size_columns t) ! i) div 2 - length (headers t ! i) div 2) CHR '' ''
             @ headers t ! i
             @ replicate (unat (column_sizes (size_columns t) ! i)
                           - (unat (column_sizes (size_columns t) ! i) div 2 - length (headers t ! i) div 2
                              + length (headers t ! i))) c
             @ ''|''"
proof -
  let ?w = "column_sizes (size_columns t) ! i"
  note fit = header_fits [OF v i len]
  have half: "unat (header_half (size_columns t) i) = unat ?w div 2 - length (headers t ! i) div 2"
    using header_half_exact(2) [OF len fit] by (simp add: header_half_def Let_def)
  have pad: "nat (sint ?w - int k) = unat ?w - k" for k
  proof -
    have "nat (sint ?w - int k) = nat (int (unat ?w) - int k)"
      by (simp only: sint_uint_small [OF small])
    also have "\<dots> = unat ?w - k" by arith
    finally show ?thesis .
  qed
  show ?thesis
    unfolding header_field_def Let_def half
    by (simp only: size_columns_fields length_append length_replicate pad append_assoc)
qed

lemma unat_total_width:
  assumes "length (column_sizes t) = num_columns t" and "line_width t < 2 ^ 32"
  shows "unat (total_width t) = line_width t"
proof -
  let ?m = "num_columns t + 1 + sum_list (map unat (column_sizes t))"
  have m: "?m = line_width t"
    using assms(1) sum_list_plus_one [of unat "column_sizes t"] by (simp add: line_width_def)
  have "total_width t = of_nat ?m"
    by (simp add: total_width_def fold_add_sum_list sum_list_of_nat_unat [of "column_sizes t"])
  then have "unat (total_width t) = ?m mod 2 ^ 32"
    by (simp only: unat_of_nat) simp
  with assms(2) m show ?thesis by simp
qed

lemma width_less_line_width:
  assumes "i < length (column_sizes t)"
  shows "unat (column_sizes t ! i) < line_width t"
proof -
  have "column_sizes t ! i \<in> set (column_sizes t)"
    using assms by simp
  then have "unat (column_sizes t ! i) \<in> set (map unat (column_sizes t))"
    by simp
  then have "unat (column_sizes t ! i) \<le> sum_list (map unat (column_sizes t))"
    by (rule member_le_sum_list) simp
  then show ?thesis
    using sum_list_plus_one [of unat "column_sizes t"] by (simp add: line_width_def)
qed

lemma length_concat_fields:
  assumes "\<And>i. i < length cs \<Longrightarrow> length (f i) = unat (cs ! i) + 1"
  shows "length (concat (map f [0..<length cs])) = sum_list (map (\<lambda>w. unat w + 1) cs)"
proof -
  have "map (length \<circ> f) [0..<length cs] = map (\<lambda>i. unat (cs ! i) + 1) [0..<length cs]"
    using assms by simp
  also have "\<dots> = map (\<lambda>w. unat w + 1) (map ((!) cs) [0..<length cs])"
    by (simp add: comp_def)
  also have "\<dots> = map (\<lambda>w. unat w + 1) cs"
    by (simp only: map_nth)
  finally show ?thesis by (simp add: length_concat)
qed

lemma length_cell_field:
  fixes w :: uint
  assumes small: "unat (column_sizes t ! i) < 2 ^ 31"
    and fits: "length (text_of (row ! i)) \<le> unat (column_sizes t ! i)"
  shows "length (cell_field t c row i) = unat (column_sizes t ! i) + 1"
proof -
  have "nat (sint (column_sizes t ! i) - int (length (text_of (row ! i))))
          = nat (int (unat (column_sizes t ! i)) - int (length (text_of (row ! i))))"
    by (simp only: sint_uint_small [OF small])
  also have "\<dots> = unat (column_sizes t ! i) - length (text_of (row ! i))" by arith
  finally have pad: "nat (sint (column_sizes t ! i) - int (length (text_of (row ! i))))
          = unat (column_sizes t ! i) - length (text_of (row ! i))" .
  show ?thesis
    unfolding cell_field_def Let_def pad using fits by simp
qed

lemma length_header_field:
  assumes "valid t" and "i < num_columns t" and "length (headers t ! i) < 2 ^ 32"
    and "unat (column_sizes (size_columns t) ! i) < 2 ^ 31"
  shows "length (header_field (size_columns t) c i) = unat (column_sizes (size_columns t) ! i) + 1"
proof -
  note fit = header_fits [OF assms(1-3)]
  from centre_parity(1) [OF fit] show ?thesis
    unfolding header_field_shape [OF assms] by simp
qed

section \<open>The example tables\<close>

text \<open>The example tables are valid, and their widths and lines are as follows.\<close>

lemma cout0_fields [simp]:
  "width cout0 = 0" "fill cout0 = CHR '' ''" "buf cout0 = []"
  by (simp_all add: cout0_def)

lemma fred_valid: "valid fred_table"
  by (simp add: valid_def fred_table_def well_typed_def)

lemma pets_valid: "valid pets_table"
  by (simp add: valid_def pets_table_def well_typed_def)

lemma empty_valid: "valid empty_table"
  by (simp add: valid_def empty_table_def)

lemma fido_valid: "valid fido_table"
  by (simp add: valid_def fido_table_def well_typed_def)

lemma weight_valid: "valid weight_table"
  by (simp add: valid_def weight_table_def well_typed_def)

lemma long_valid: "valid long_header_table"
  by (simp add: valid_def long_header_table_def)

lemma long_constructed:
  "VariadicTable [StdString] [replicate (2 ^ 32) CHR ''x''] 0 = Inr long_header_table"
  by (simp add: VariadicTable_def long_header_table_def)

lemma weight_constructed:
  "\<exists>t0. VariadicTable [Arithmetic] [''A''] 0 = Inr t0 \<and> addRow [Num ''193.4''] t0 = weight_table"
  by (simp add: VariadicTable_def addRow_def weight_table_def)

lemma fido_constructed:
  "\<exists>t0. VariadicTable [StdString] [''Pet''] 0 = Inr t0 \<and> addRow [Str ''Fido''] t0 = fido_table"
  by (simp add: VariadicTable_def addRow_def fido_table_def)

lemma fred_widths: "column_sizes (size_columns fred_table) = [4, 6, 3, 7]"
  by code_simp

lemma pets_widths: "column_sizes (size_columns pets_table) = [7, 3]"
  by (simp add: size_columns_sizes pets_valid)
     (simp add: pets_table_def column_width_def header_size_def display_size_def string_size_def upt_rec)

lemma long_width:
  "column_sizes (fst (print long_header_table cout0)) ! 0 = 0"
  by (simp add: print_fst size_columns_sizes long_valid)
     (simp add: long_header_table_def column_width_def header_size_def string_size_def)

lemma fred_lines:
  "print_lines (size_columns fred_table) CHR '' ''
     = [''-------------------------'', ''|Name|Weight|Age|Brother|'', ''-------------------------'',
        ''|Fred| 193.4| 35|Sam    |'', ''-------------------------'']"
  by code_simp

lemma empty_lines:
  "print_lines (size_columns empty_table) CHR '' ''
     = [''----------'', ''|Name|Age|'', ''----------'', ''----------'']"
  by code_simp


lemma wide_constructed:
  "\<exists>t0. VariadicTable [Arithmetic] [''A''] 2147483648 = Inr t0 \<and> addRow [Num ''5''] t0 = wide_table"
  by (simp add: VariadicTable_def addRow_def wide_table_def)

lemma wide_valid: "valid wide_table"
  by (simp add: valid_def wide_table_def well_typed_def)

lemma wide_widths: "column_sizes (size_columns wide_table) = [2147483648]"
  by code_simp

lemma wide_cell: "buf (print_each (size_columns wide_table) [Num ''5''] cout0) = ''5|''"
  by code_simp

lemma pending_first:
  "buf (snd (print empty_table cout_pending))
     = ''*****----------'' @ newline @ ''|Name|Age|'' @ newline @ ''----------'' @ newline
       @ ''----------'' @ newline"
  by code_simp

lemma pending_second:
  "drop (length (buf (snd (print empty_table cout_pending))))
        (buf (snd (print (fst (print empty_table cout_pending)) (snd (print empty_table cout_pending)))))
     = ''----------'' @ newline @ ''|Name|Age|'' @ newline @ ''----------'' @ newline
       @ ''----------'' @ newline"
  by code_simp

lemma pending_rule: "rule_line (fst (print empty_table cout_pending)) = ''----------''"
  by code_simp

lemma pending_header: "header_line (fst (print empty_table cout_pending)) (fill cout_pending) = ''|Name|Age|''"
  by code_simp

lemma empty_constructed:
  "VariadicTable [StdString, Arithmetic] [''Name'', ''Age''] 0 = Inr empty_table"
  by (simp add: VariadicTable_def empty_table_def)

section \<open>The claims\<close>

subsection \<open>Column widths\<close>

text \<open>
  C1 (amended). For every table and every column \<open>i\<close> whose header and whose display
  lengths are all below \<open>2 ^ 32\<close>, the width that the render pass computes for column
  \<open>i\<close> is the maximum of the header's character length and the display lengths of the
  values of column \<open>i\<close> over all rows. The display length of a value is the result of
  \<open>size()\<close> when the declared column type has that member and the fallback width
  otherwise, and it is what \<open>sizeOfData\<close> returns.
\<close>

theorem column_width_is_max_of_lengths:
  assumes "valid t" and "i < num_columns t"
    and "length (headers t ! i) < 2 ^ 32"
    and "\<forall>row \<in> set (data t). display_length t (Ts t ! i) (row ! i) < 2 ^ 32"
  shows "unat (column_sizes (fst (print t stream)) ! i)
           = Max (insert (length (headers t ! i))
                   ((\<lambda>row. display_length t (Ts t ! i) (row ! i)) ` set (data t))) \<and>
         (\<forall>row \<in> set (data t).
            unat (sizeOfData t (Ts t ! i) (row ! i)) = display_length t (Ts t ! i) (row ! i))"
proof -
  have "unat (sizeOfData t (Ts t ! i) (row ! i)) = display_length t (Ts t ! i) (row ! i)"
    if "row \<in> set (data t)" for row
  proof -
    from assms(4) that have b: "display_length t (Ts t ! i) (row ! i) < 2 ^ 32" by blast
    show ?thesis
    proof (cases "Ts t ! i")
      case StdString
      with b have "length (text_of (row ! i)) < 2 ^ 64" by (simp add: display_length_def)
      with StdString show ?thesis by (simp add: display_length_def unat_string_size)
    qed (simp_all add: display_length_def unat_size_t_of_uint)
  qed
  with assms show ?thesis
    by (simp add: print_fst size_columns_nth unat_column_width)
qed

theorem column_width_witness:
  "valid fred_table \<and> 3 < num_columns fred_table \<and>
   headers fred_table ! 3 = ''Brother'' \<and>
   map (\<lambda>row. display_length fred_table (Ts fred_table ! 3) (row ! 3)) (data fred_table) = [3] \<and>
   unat (column_sizes (fst (print fred_table cout0)) ! 3) = 7"
proof -
  have i: "3 < num_columns fred_table" by (simp add: fred_table_def)
  have h: "headers fred_table ! 3 = ''Brother''" by (simp add: fred_table_def)
  have d: "map (\<lambda>row. display_length fred_table (Ts fred_table ! 3) (row ! 3)) (data fred_table) = [3]"
    by (simp add: fred_table_def display_length_def)
  have hb: "length (headers fred_table ! 3) < 2 ^ 32" by (simp add: h)
  have db: "\<forall>row \<in> set (data fred_table).
              display_length fred_table (Ts fred_table ! 3) (row ! 3) < 2 ^ 32"
    by (simp add: fred_table_def display_length_def)
  have im: "(\<lambda>row. display_length fred_table (Ts fred_table ! 3) (row ! 3)) ` set (data fred_table) = {3}"
    using d by (simp add: fred_table_def display_length_def)
  from column_width_is_max_of_lengths [OF fred_valid i hb db, of cout0]
  have "unat (column_sizes (fst (print fred_table cout0)) ! 3) = 7"
    by (simp add: h im)
  with fred_valid i h d show ?thesis by simp
qed

text \<open>
  C1 as stated fails for a header of \<open>2 ^ 32\<close> characters: the width is stored in an
  \<open>unsigned int\<close>, so the table gets width 0 for that column, not the header's length.
\<close>

theorem long_header_width_is_not_max:
  "VariadicTable [StdString] [replicate (2 ^ 32) CHR ''x''] 0 = Inr long_header_table \<and>
   valid long_header_table \<and>
   length (headers long_header_table ! 0) = 4294967296 \<and>
   data long_header_table = [] \<and>
   unat (column_sizes (fst (print long_header_table cout0)) ! 0) = 0 \<and>
   unat (column_sizes (fst (print long_header_table cout0)) ! 0)
     \<noteq> Max (insert (length (headers long_header_table ! 0))
             ((\<lambda>row. display_length long_header_table (Ts long_header_table ! 0) (row ! 0))
                ` set (data long_header_table)))"
proof -
  have h: "length (headers long_header_table ! 0) = 4294967296"
    by (simp add: long_header_table_def)
  have d: "data long_header_table = []" by (simp add: long_header_table_def)
  show ?thesis using long_constructed by (simp add: long_valid long_width h d)
qed

subsection \<open>Line widths\<close>

text \<open>
  C2 (amended). For every table whose headers are shorter than \<open>2 ^ 32\<close> characters, in
  which the text of every cell is no longer than the width of its column, and whose line
  width \<open>1 + \<Sum>(column_width_i + 1)\<close> is below \<open>2 ^ 31\<close>, every line that \<open>print\<close> writes
  on a stream with no pending field width (each rule, the header line and each data
  line) has exactly that many characters.
\<close>

theorem lines_have_equal_width:
  assumes "valid t" and "width stream = 0"
    and "\<forall>i < num_columns t. length (headers t ! i) < 2 ^ 32"
    and "\<forall>row \<in> set (data t). \<forall>i < num_columns t.
           length (text_of (row ! i)) \<le> unat (column_sizes (fst (print t stream)) ! i)"
    and "line_width (fst (print t stream)) < 2 ^ 31"
  shows "buf (snd (print t stream))
           = buf stream
             @ concat (map (\<lambda>l. l @ newline) (print_lines (fst (print t stream)) (fill stream))) \<and>
         (\<forall>l \<in> set (print_lines (fst (print t stream)) (fill stream)).
            length l = line_width (fst (print t stream)))"
proof -
  let ?t = "size_columns t"
  let ?c = "fill stream"
  from assms(1) have n: "num_columns t = length (Ts t)" by (simp add: valid_def)
  have len: "length (column_sizes ?t) = num_columns t"
    using assms(1) by (rule size_columns_length)
  have lw: "line_width ?t < 2 ^ 31" using assms(5) by (simp add: print_fst)
  have small: "unat (column_sizes ?t ! i) < 2 ^ 31" if "i < num_columns t" for i
    using width_less_line_width [of i ?t] that len lw by simp
  have rule: "length (rule_line ?t) = line_width ?t"
    using lw by (simp add: rule_line_def unat_total_width len)
  have hdr: "length (header_line ?t ?c) = line_width ?t"
  proof -
    have "length (concat (map (header_field ?t ?c) [0..<length (column_sizes ?t)]))
            = sum_list (map (\<lambda>w. unat w + 1) (column_sizes ?t))"
    proof (rule length_concat_fields)
      fix i assume "i < length (column_sizes ?t)"
      then have i: "i < num_columns t" by (simp add: len)
      with assms(3) have "length (headers t ! i) < 2 ^ 32" by blast
      from length_header_field [OF assms(1) i this small [OF i]]
      show "length (header_field ?t ?c i) = unat (column_sizes ?t ! i) + 1" .
    qed
    then show ?thesis by (simp add: header_line_def line_width_def len)
  qed
  have row: "length (row_line ?t ?c r) = line_width ?t" if "r \<in> set (data t)" for r
  proof -
    have "length (concat (map (cell_field ?t ?c r) [0..<length (column_sizes ?t)]))
            = sum_list (map (\<lambda>w. unat w + 1) (column_sizes ?t))"
    proof (rule length_concat_fields)
      fix i assume "i < length (column_sizes ?t)"
      then have i: "i < num_columns t" by (simp add: len)
      with assms(4) that have "length (text_of (r ! i)) \<le> unat (column_sizes ?t ! i)"
        by (simp add: print_fst)
      from length_cell_field [OF small [OF i] this]
      show "length (cell_field ?t ?c r i) = unat (column_sizes ?t ! i) + 1" .
    qed
    then show ?thesis by (simp add: row_line_def line_width_def len n)
  qed
  have "\<forall>l \<in> set (print_lines ?t ?c). length l = line_width ?t"
    using rule hdr row by (auto simp: print_lines_def)
  with print_writes(2) [OF assms(2), of t] show ?thesis
    by (simp add: print_fst)
qed

theorem lines_have_equal_width_witness:
  "valid fred_table \<and> width cout0 = 0 \<and>
   line_width (fst (print fred_table cout0)) = 25 \<and>
   map length (print_lines (fst (print fred_table cout0)) (fill cout0)) = [25, 25, 25, 25, 25]"
proof -
  have w0: "width cout0 = 0" by simp
  have idx: "i = 0 \<or> i = 1 \<or> i = 2 \<or> i = 3" if "i < num_columns fred_table" for i
    using that by (auto simp: fred_table_def)
  have hs: "\<forall>i < num_columns fred_table. length (headers fred_table ! i) < 2 ^ 32"
  proof (intro allI impI)
    fix i assume "i < num_columns fred_table"
    from idx [OF this] show "length (headers fred_table ! i) < 2 ^ 32"
      by (auto simp: fred_table_def)
  qed
  have ws: "column_sizes (fst (print fred_table cout0)) = [4, 6, 3, 7]"
    by (simp add: print_fst fred_widths)
  have cs: "\<forall>row \<in> set (data fred_table). \<forall>i < num_columns fred_table.
           length (text_of (row ! i)) \<le> unat (column_sizes (fst (print fred_table cout0)) ! i)"
    unfolding ws
  proof (intro ballI allI impI)
    fix row i assume "row \<in> set (data fred_table)" and "i < num_columns fred_table"
    from idx [OF this(2)] this(1)
    show "length (text_of (row ! i)) \<le> unat (([4, 6, 3, 7] :: uint list) ! i)"
      by (auto simp: fred_table_def)
  qed
  have lw: "line_width (fst (print fred_table cout0)) = 25"
    by (simp add: line_width_def ws)
  have lb: "line_width (fst (print fred_table cout0)) < 2 ^ 31"
    by (simp add: lw)
  from lines_have_equal_width [OF fred_valid w0 hs cs lb, THEN conjunct2]
  have "\<forall>l \<in> set (print_lines (fst (print fred_table cout0)) (fill cout0)). length l = 25"
    by (simp only: lw)
  then have "map length (print_lines (fst (print fred_table cout0)) (fill cout0)) = [25, 25, 25, 25, 25]"
    by (simp add: print_lines_def fred_table_def print_fst)
  with fred_valid w0 lw show ?thesis by simp
qed

text \<open>
  C2 as stated fails for a \<open>double\<close> column with header \<open>A\<close> and the value 193.4: the
  column has width 1 and the rules and the header line have 3 characters, but
  \<open>std::setw\<close> does not cut a longer text, and the data line has 7.
\<close>

theorem data_line_wider_than_rule:
  "(\<exists>t0. VariadicTable [Arithmetic] [''A''] 0 = Inr t0 \<and> addRow [Num ''193.4''] t0 = weight_table) \<and>
   valid weight_table \<and>
   column_sizes (fst (print weight_table cout0)) = [1] \<and>
   line_width (fst (print weight_table cout0)) = 3 \<and>
   buf (snd (print weight_table cout0))
     = ''---'' @ newline @ ''|A|'' @ newline @ ''---'' @ newline @ ''|193.4|'' @ newline
       @ ''---'' @ newline \<and>
   map length (print_lines (fst (print weight_table cout0)) (fill cout0)) = [3, 3, 3, 7, 3] \<and>
   \<not> (\<forall>l \<in> set (print_lines (fst (print weight_table cout0)) (fill cout0)).
         length l = line_width (fst (print weight_table cout0)))"
proof -
  have ws: "column_sizes (size_columns weight_table) = [1]" by code_simp
  have lw: "line_width (size_columns weight_table) = 3" by (simp add: line_width_def ws)
  have l: "print_lines (size_columns weight_table) CHR '' ''
             = [''---'', ''|A|'', ''---'', ''|193.4|'', ''---'']"
    by code_simp
  have out: "buf (snd (print weight_table cout0))
     = ''---'' @ newline @ ''|A|'' @ newline @ ''---'' @ newline @ ''|193.4|'' @ newline
       @ ''---'' @ newline"
    using print_writes(2) [of cout0 weight_table] by (simp add: l)
  from weight_constructed weight_valid ws lw out show ?thesis
    by (simp add: print_fst l)
qed

subsection \<open>Construction\<close>

text \<open>
  C3. The constructor aborts exactly when the number of header strings differs from the
  number of declared columns. When the two agree it returns a table that holds the
  given headers and fallback width unchanged, with no rows yet.
\<close>

theorem constructor_aborts_iff_count_mismatch:
  "(isl (VariadicTable ts hs static_size) \<longleftrightarrow> length hs \<noteq> length ts) \<and>
   (length hs = length ts \<longrightarrow>
      (\<exists>t. VariadicTable ts hs static_size = Inr t \<and> headers t = hs \<and>
           static_column_size t = static_size \<and> Ts t = ts \<and> data t = [] \<and> valid t))"
  by (simp add: VariadicTable_def valid_def)

theorem constructor_witness:
  "length [''Name'', ''Age''] = length [StdString, Arithmetic] \<and>
   (\<exists>t. VariadicTable [StdString, Arithmetic] [''Name'', ''Age''] 0 = Inr t \<and>
        headers t = [''Name'', ''Age''] \<and> static_column_size t = 0) \<and>
   isl (VariadicTable [StdString, Arithmetic] [''Name''] 0)"
proof -
  have eq: "length [''Name'', ''Age''] = length [StdString, Arithmetic]" by simp
  from constructor_aborts_iff_count_mismatch [of "[StdString, Arithmetic]" "[''Name'', ''Age'']" 0]
  have ok: "\<exists>t. VariadicTable [StdString, Arithmetic] [''Name'', ''Age''] 0 = Inr t \<and>
        headers t = [''Name'', ''Age''] \<and> static_column_size t = 0"
    using eq by blast
  from constructor_aborts_iff_count_mismatch [of "[StdString, Arithmetic]" "[''Name'']" 0]
  have "isl (VariadicTable [StdString, Arithmetic] [''Name''] 0)" by simp
  with eq ok show ?thesis by blast
qed

subsection \<open>Justification\<close>

text \<open>
  C4 (amended). What \<open>print_each\<close> writes for a row is, column by column, the value's
  text and its padding followed by the separator. The padding stands before the text
  (the value is right-justified) when the declared type of the column is arithmetic and
  after it (left-justified) otherwise: the side is a function of the declared type
  alone, set by \<open>justify\<close> before every value, whatever the row. For every column whose
  width is below \<open>2 ^ 31\<close> the padding fills the cell up to the column's width: it has
  as many fill characters as the column's width exceeds the length of the text, and none
  when the text is longer. In general it has as many as the width handed to
  \<open>std::setw\<close>, an \<open>int\<close>, exceeds the text.
\<close>

theorem cells_justified_by_column_type:
  "buf (print_each t row stream)
     = buf stream
       @ concat (map (\<lambda>i. (if is_arithmetic (Ts t ! i)
                            then replicate (nat (sint (column_sizes t ! i) - int (length (text_of (row ! i)))))
                                   (fill stream) @ text_of (row ! i)
                            else text_of (row ! i)
                                 @ replicate (nat (sint (column_sizes t ! i) - int (length (text_of (row ! i)))))
                                     (fill stream)) @ ''|'')
                   [0..<length (Ts t)]) \<and>
   adjustfield (justify T stream) = (if is_arithmetic T then AdjRight else AdjLeft) \<and>
   (\<forall>i. unat (column_sizes t ! i) < 2 ^ 31 \<longrightarrow>
        nat (sint (column_sizes t ! i) - int (length (text_of (row ! i))))
          = unat (column_sizes t ! i) - length (text_of (row ! i)))"
proof -
  have pad: "nat (sint w - int n) = unat w - n" if "unat w < 2 ^ 31" for w :: uint and n
  proof -
    have "nat (sint w - int n) = nat (int (unat w) - int n)"
      by (simp only: sint_uint_small [OF that])
    also have "\<dots> = unat w - n" by arith
    finally show ?thesis .
  qed
  have out: "buf (print_each t row stream)
     = buf stream @ concat (map (cell_field t (fill stream) row) [0..<length (Ts t)])"
    by (simp add: print_each_def print_each_from_buf)
  have shape: "cell_field t c row = (\<lambda>i. (if is_arithmetic (Ts t ! i)
                            then replicate (nat (sint (column_sizes t ! i) - int (length (text_of (row ! i)))))
                                   c @ text_of (row ! i)
                            else text_of (row ! i)
                                 @ replicate (nat (sint (column_sizes t ! i) - int (length (text_of (row ! i)))))
                                     c) @ ''|'')" for c
    by (rule ext) (simp add: cell_field_def Let_def)
  show ?thesis
  proof (intro conjI allI impI)
    show "buf (print_each t row stream)
     = buf stream
       @ concat (map (\<lambda>i. (if is_arithmetic (Ts t ! i)
                            then replicate (nat (sint (column_sizes t ! i) - int (length (text_of (row ! i)))))
                                   (fill stream) @ text_of (row ! i)
                            else text_of (row ! i)
                                 @ replicate (nat (sint (column_sizes t ! i) - int (length (text_of (row ! i)))))
                                     (fill stream)) @ ''|'')
                   [0..<length (Ts t)])"
      by (simp only: out shape)
  next
    show "adjustfield (justify T stream) = (if is_arithmetic T then AdjRight else AdjLeft)"
      by (rule justify_simps)
  next
    fix i assume "unat (column_sizes t ! i) < 2 ^ 31"
    then show "nat (sint (column_sizes t ! i) - int (length (text_of (row ! i))))
          = unat (column_sizes t ! i) - length (text_of (row ! i))"
      by (rule pad)
  qed
qed

theorem cells_justified_witness:
  "unat (column_sizes (size_columns fred_table) ! 2) < 2 ^ 31 \<and>
   buf (print_each (size_columns fred_table) [Str ''Fred'', Num ''193.4'', Num ''35'', Str ''Sam''] cout0)
     = ''Fred| 193.4| 35|Sam    |'' \<and>
   nat (sint (column_sizes (size_columns fred_table) ! 2)
        - int (length (text_of ([Str ''Fred'', Num ''193.4'', Num ''35'', Str ''Sam''] ! 2)))) = 1"
proof -
  have ts: "Ts fred_table = [StdString, Arithmetic, Arithmetic, StdString]"
    by (simp add: fred_table_def)
  have up: "[0..<4] = [0, 1, 2, 3]" by (simp add: upt_rec)
  have rep: "replicate 4 c = [c, c, c, c]" for c :: char by (simp add: numeral_eq_Suc)
  have w: "unat (column_sizes (size_columns fred_table) ! 2) < 2 ^ 31"
    by (simp add: fred_widths)
  note inst = cells_justified_by_column_type
    [of "size_columns fred_table" "[Str ''Fred'', Num ''193.4'', Num ''35'', Str ''Sam'']" cout0]
  from inst have "buf (print_each (size_columns fred_table)
                   [Str ''Fred'', Num ''193.4'', Num ''35'', Str ''Sam''] cout0)
     = ''Fred| 193.4| 35|Sam    |''"
    by (simp add: fred_widths ts up rep)
  moreover from inst w have "nat (sint (column_sizes (size_columns fred_table) ! 2)
        - int (length (text_of ([Str ''Fred'', Num ''193.4'', Num ''35'', Str ''Sam''] ! 2)))) = 1"
    by (simp add: fred_widths)
  ultimately show ?thesis using w by simp
qed

text \<open>
  C4 as stated fails for a column of width \<open>2 ^ 31\<close>, which the fallback width
  \<open>2147483648\<close> gives to an \<open>int\<close> column: \<open>std::setw\<close> receives a negative \<open>int\<close>, and
  the value 5 is written without any padding, not right-justified within the column's
  width.
\<close>

theorem wide_column_cell_not_padded:
  "(\<exists>t0. VariadicTable [Arithmetic] [''A''] 2147483648 = Inr t0 \<and> addRow [Num ''5''] t0 = wide_table) \<and>
   valid wide_table \<and>
   is_arithmetic (Ts wide_table ! 0) \<and>
   unat (column_sizes (fst (print wide_table cout0)) ! 0) = 2147483648 \<and>
   buf (print_each (fst (print wide_table cout0)) [Num ''5''] cout0) = ''5|'' \<and>
   buf (print_each (fst (print wide_table cout0)) [Num ''5''] cout0)
     \<noteq> replicate (unat (column_sizes (fst (print wide_table cout0)) ! 0) - length ''5'') CHR '' ''
         @ ''5'' @ ''|''"
proof -
  have a: "is_arithmetic (Ts wide_table ! 0)" by (simp add: wide_table_def)
  have w: "unat (column_sizes (size_columns wide_table) ! 0) = 2147483648"
    by (simp add: wide_widths)
  have "length (replicate (2147483648 - length ''5'') CHR '' '' @ ''5'' @ ''|'') \<noteq> length ''5|''"
    by simp
  then have ne: "''5|'' \<noteq> replicate (2147483648 - length ''5'') CHR '' '' @ ''5'' @ ''|''"
    by metis
  from wide_constructed wide_valid a w wide_cell ne show ?thesis
    by (simp only: print_fst) simp
qed

subsection \<open>The header line\<close>

text \<open>
  C5 (amended). In the header line, for every column whose header is shorter than
  \<open>2 ^ 32\<close> characters and whose width is below \<open>2 ^ 31\<close>, the label is preceded by
  exactly \<open>width div 2 - length div 2\<close> spaces and followed by fill characters up to the
  column's width. When the free padding is even the two sides are equal. When it is odd
  the extra character falls on the right of the label if the width is odd, and on the
  left of the label if the width is even.
\<close>

theorem header_label_position:
  assumes "valid t" and "i < num_columns t" and "length (headers t ! i) < 2 ^ 32"
    and "unat (column_sizes (size_columns t) ! i) < 2 ^ 31"
  shows "(let w = unat (column_sizes (size_columns t) ! i);
              n = length (headers t ! i);
              lead = w div 2 - n div 2;
              trail = w - (lead + n)
          in buf (print_header (size_columns t) i stream)
               = buf stream @ replicate lead CHR '' '' @ headers t ! i
                 @ replicate trail (fill stream) @ ''|'' \<and>
             lead + n + trail = w \<and>
             (even (w - n) \<longrightarrow> trail = lead) \<and>
             (odd (w - n) \<longrightarrow> (if odd w then trail = lead + 1 else lead = trail + 1)))"
proof -
  define w where "w = unat (column_sizes (size_columns t) ! i)"
  define n where "n = length (headers t ! i)"
  define lead where "lead = w div 2 - n div 2"
  define trail where "trail = w - (lead + n)"
  have fit: "n \<le> w"
    unfolding n_def w_def by (rule header_fits [OF assms(1-3)])
  note par = centre_parity [OF fit, folded lead_def, folded trail_def]
  have "buf (print_header (size_columns t) i stream)
               = buf stream @ header_field (size_columns t) (fill stream) i"
    using print_header_writes [of "size_columns t" i stream] by simp
  also have "header_field (size_columns t) (fill stream) i
               = replicate lead CHR '' '' @ headers t ! i @ replicate trail (fill stream) @ ''|''"
    unfolding trail_def lead_def w_def n_def by (rule header_field_shape [OF assms])
  finally have out: "buf (print_header (size_columns t) i stream)
               = buf stream @ replicate lead CHR '' '' @ headers t ! i
                 @ replicate trail (fill stream) @ ''|''" .
  have odd_case: "if odd w then trail = lead + 1 else lead = trail + 1" if "odd (w - n)"
    using par(2,3) [OF that] by (cases "odd w") simp_all
  have "buf (print_header (size_columns t) i stream)
               = buf stream @ replicate lead CHR '' '' @ headers t ! i
                 @ replicate trail (fill stream) @ ''|'' \<and>
             lead + n + trail = w \<and>
             (even (w - n) \<longrightarrow> trail = lead) \<and>
             (odd (w - n) \<longrightarrow> (if odd w then trail = lead + 1 else lead = trail + 1))"
    using out par(1) par(4) odd_case by blast
  then show ?thesis
    unfolding Let_def trail_def lead_def w_def n_def .
qed

theorem header_label_position_witness:
  "valid pets_table \<and> 0 < num_columns pets_table \<and> headers pets_table ! 0 = ''Pet'' \<and>
   unat (column_sizes (size_columns pets_table) ! 0) = 7 \<and>
   buf (print_header (size_columns pets_table) 0 cout0) = ''  Pet  |''"
proof -
  have i: "0 < num_columns pets_table" by (simp add: pets_table_def)
  have h: "headers pets_table ! 0 = ''Pet''" by (simp add: pets_table_def)
  have hb: "length (headers pets_table ! 0) < 2 ^ 32" by (simp add: h)
  have w: "unat (column_sizes (size_columns pets_table) ! 0) = 7" by (simp add: pets_widths)
  have wb: "unat (column_sizes (size_columns pets_table) ! 0) < 2 ^ 31" by (simp add: w)
  have rep: "replicate 2 c = [c, c]" for c :: char by (simp add: numeral_eq_Suc)
  from header_label_position [OF pets_valid i hb wb, of cout0]
  have "buf (print_header (size_columns pets_table) 0 cout0) = ''  Pet  |''"
    by (simp add: Let_def w h rep)
  with pets_valid i h w show ?thesis by simp
qed

text \<open>
  C5 as stated fails for the header \<open>Pet\<close> in a column of width 4: the free padding is
  one character, and it stands on the left of the label.
\<close>

theorem header_extra_space_on_the_left:
  "(\<exists>t0. VariadicTable [StdString] [''Pet''] 0 = Inr t0 \<and> addRow [Str ''Fido''] t0 = fido_table) \<and>
   valid fido_table \<and>
   unat (column_sizes (size_columns fido_table) ! 0) = 4 \<and>
   headers fido_table ! 0 = ''Pet'' \<and>
   buf (print_header (size_columns fido_table) 0 cout0) = '' Pet|'' \<and>
   buf (print_header (size_columns fido_table) 0 cout0) \<noteq> ''Pet |'' \<and>
   buf (snd (print fido_table cout0))
     = ''------'' @ newline @ ''| Pet|'' @ newline @ ''------'' @ newline
       @ ''|Fido|'' @ newline @ ''------'' @ newline"
proof -
  have w: "unat (column_sizes (size_columns fido_table) ! 0) = 4" by code_simp
  have h: "headers fido_table ! 0 = ''Pet''" by (simp add: fido_table_def)
  have p: "buf (print_header (size_columns fido_table) 0 cout0) = '' Pet|''" by code_simp
  have l: "print_lines (size_columns fido_table) CHR '' ''
             = [''------'', ''| Pet|'', ''------'', ''|Fido|'', ''------'']"
    by code_simp
  have out: "buf (snd (print fido_table cout0))
     = ''------'' @ newline @ ''| Pet|'' @ newline @ ''------'' @ newline
       @ ''|Fido|'' @ newline @ ''------'' @ newline"
    using print_writes(2) [of cout0 fido_table] by (simp add: l)
  from fido_constructed fido_valid w h p out show ?thesis by simp
qed

subsection \<open>Printing twice\<close>

text \<open>
  C6 (amended). Two calls of \<open>print\<close> in succession on the same table, with no
  \<open>addRow\<close> between them, on a stream that has no field width pending at the first
  call, write the same characters, and the second call leaves the table as the first
  left it. The widths that \<open>print\<close> computes do not depend on the widths stored before
  the call: they are computed anew from the headers and the rows.
\<close>

theorem print_twice_writes_the_same:
  assumes "valid t" and "width stream = 0"
  shows "(let (t1, s1) = print t stream; (t2, s2) = print t1 s1
          in drop (length (buf s1)) (buf s2) = drop (length (buf stream)) (buf s1) \<and> t2 = t1) \<and>
         column_sizes (fst (print (t\<lparr>column_sizes := cs\<rparr>) stream))
           = column_sizes (fst (print t stream))"
proof -
  let ?s1 = "snd (print t stream)"
  let ?t1 = "fst (print t stream)"
  have w1: "width ?s1 = 0" and f1: "fill ?s1 = fill stream"
    using print_writes(3,4) [OF assms(2), of t] by simp_all
  have t1: "?t1 = size_columns t" by (rule print_fst)
  have again: "size_columns ?t1 = size_columns t"
    using assms(1) by (simp add: t1 size_columns_idem)
  have b1: "buf ?s1 = buf stream
              @ concat (map (\<lambda>l. l @ newline) (print_lines (size_columns t) (fill stream)))"
    by (rule print_writes(2) [OF assms(2)])
  have b2: "buf (snd (print ?t1 ?s1)) = buf ?s1
              @ concat (map (\<lambda>l. l @ newline) (print_lines (size_columns t) (fill stream)))"
    using print_writes(2) [OF w1, of ?t1] by (simp only: again f1)
  have same: "drop (length (buf ?s1)) (buf (snd (print ?t1 ?s1))) = drop (length (buf stream)) (buf ?s1)"
    by (subst b2, subst (2) b1) simp
  have stays: "fst (print ?t1 ?s1) = ?t1"
    using assms(1) by (simp add: print_fst size_columns_idem)
  have forget: "column_sizes (fst (print (t\<lparr>column_sizes := cs\<rparr>) stream))
           = column_sizes (fst (print t stream))"
    using assms(1) by (simp add: print_fst size_columns_forgets)
  from same stays forget show ?thesis
    by (simp add: split_beta)
qed

theorem print_twice_witness:
  "valid fred_table \<and> width cout0 = 0 \<and>
   buf (snd (print fred_table cout0))
     = ''-------------------------'' @ newline @ ''|Name|Weight|Age|Brother|'' @ newline
       @ ''-------------------------'' @ newline @ ''|Fred| 193.4| 35|Sam    |'' @ newline
       @ ''-------------------------'' @ newline \<and>
   drop (length (buf (snd (print fred_table cout0))))
        (buf (snd (print (fst (print fred_table cout0)) (snd (print fred_table cout0)))))
     = ''-------------------------'' @ newline @ ''|Name|Weight|Age|Brother|'' @ newline
       @ ''-------------------------'' @ newline @ ''|Fred| 193.4| 35|Sam    |'' @ newline
       @ ''-------------------------'' @ newline"
proof -
  have w0: "width cout0 = 0" by simp
  have first: "buf (snd (print fred_table cout0))
     = ''-------------------------'' @ newline @ ''|Name|Weight|Age|Brother|'' @ newline
       @ ''-------------------------'' @ newline @ ''|Fred| 193.4| 35|Sam    |'' @ newline
       @ ''-------------------------'' @ newline"
    using print_writes(2) [OF w0, of fred_table] by (simp add: fred_lines)
  from print_twice_writes_the_same [OF fred_valid w0]
  have "drop (length (buf (snd (print fred_table cout0))))
        (buf (snd (print (fst (print fred_table cout0)) (snd (print fred_table cout0)))))
     = drop (length (buf cout0)) (buf (snd (print fred_table cout0)))"
    by (simp add: split_beta)
  with first fred_valid w0 show ?thesis by simp
qed

text \<open>
  C6 as stated fails on a stream with a pending field width: the first insertion of the
  first call consumes the width and pads the top rule, the second call finds no width
  and writes the rule as it is.
\<close>

theorem pending_width_print_twice_differs:
  "VariadicTable [StdString, Arithmetic] [''Name'', ''Age''] 0 = Inr empty_table \<and>
   valid empty_table \<and> width cout_pending = 15 \<and>
   drop (length (buf cout_pending)) (buf (snd (print empty_table cout_pending)))
     = ''*****----------'' @ newline @ ''|Name|Age|'' @ newline @ ''----------'' @ newline
       @ ''----------'' @ newline \<and>
   drop (length (buf (snd (print empty_table cout_pending))))
        (buf (snd (print (fst (print empty_table cout_pending)) (snd (print empty_table cout_pending)))))
     = ''----------'' @ newline @ ''|Name|Age|'' @ newline @ ''----------'' @ newline
       @ ''----------'' @ newline \<and>
   drop (length (buf (snd (print empty_table cout_pending))))
        (buf (snd (print (fst (print empty_table cout_pending)) (snd (print empty_table cout_pending)))))
     \<noteq> drop (length (buf cout_pending)) (buf (snd (print empty_table cout_pending)))"
proof -
  have w: "width cout_pending = 15" by (simp add: cout_pending_def)
  have b: "buf cout_pending = []" by (simp add: cout_pending_def)
  from empty_constructed empty_valid w pending_first pending_second show ?thesis
    by (simp add: b)
qed

subsection \<open>Row order\<close>



subsection \<open>The shape of the output\<close>

text \<open>
  C8 (amended). On a stream with no pending field width, \<open>print\<close> writes, in this
  order: the rule, the header line, the same rule again, one line for each of the \<open>N\<close>
  rows, and the same rule once more, each followed by a newline. A table without rows
  still gets the two rules around the header line, the header line and the closing rule,
  and its widths are the lengths of the headers.
\<close>

theorem print_output_structure:
  assumes "width stream = 0"
  shows "buf (snd (print t stream))
           = buf stream
             @ rule_line (fst (print t stream)) @ newline
             @ header_line (fst (print t stream)) (fill stream) @ newline
             @ rule_line (fst (print t stream)) @ newline
             @ concat (map (\<lambda>row. row_line (fst (print t stream)) (fill stream) row @ newline) (data t))
             @ rule_line (fst (print t stream)) @ newline \<and>
         length (map (\<lambda>row. row_line (fst (print t stream)) (fill stream) row @ newline) (data t))
           = length (data t) \<and>
         (valid t \<and> data t = [] \<longrightarrow>
            buf (snd (print t stream))
              = buf stream
                @ rule_line (fst (print t stream)) @ newline
                @ header_line (fst (print t stream)) (fill stream) @ newline
                @ rule_line (fst (print t stream)) @ newline
                @ rule_line (fst (print t stream)) @ newline \<and>
            column_sizes (fst (print t stream)) = map (\<lambda>h. of_nat (length h)) (headers t))"
proof -
  note main = print_buf_lines [OF assms, of t]
  have empty: "buf (snd (print t stream))
              = buf stream
                @ rule_line (size_columns t) @ newline
                @ header_line (size_columns t) (fill stream) @ newline
                @ rule_line (size_columns t) @ newline
                @ rule_line (size_columns t) @ newline" if "data t = []"
    using main that by simp
  show ?thesis
    unfolding print_fst
  proof (intro conjI impI)
    show "buf (snd (print t stream))
           = buf stream
             @ rule_line (size_columns t) @ newline
             @ header_line (size_columns t) (fill stream) @ newline
             @ rule_line (size_columns t) @ newline
             @ concat (map (\<lambda>row. row_line (size_columns t) (fill stream) row @ newline) (data t))
             @ rule_line (size_columns t) @ newline"
      by (rule main)
  next
    show "length (map (\<lambda>row. row_line (size_columns t) (fill stream) row @ newline) (data t))
            = length (data t)"
      by simp
  next
    assume "valid t \<and> data t = []"
    then show "buf (snd (print t stream))
              = buf stream
                @ rule_line (size_columns t) @ newline
                @ header_line (size_columns t) (fill stream) @ newline
                @ rule_line (size_columns t) @ newline
                @ rule_line (size_columns t) @ newline"
      using empty by blast
  next
    assume "valid t \<and> data t = []"
    then show "column_sizes (size_columns t) = map (\<lambda>h. of_nat (length h)) (headers t)"
      using size_columns_no_rows [of t] by blast
  qed
qed

theorem print_output_structure_witness:
  "width cout0 = 0 \<and> valid empty_table \<and> data empty_table = [] \<and>
   buf (snd (print empty_table cout0))
     = ''----------'' @ newline @ ''|Name|Age|'' @ newline @ ''----------'' @ newline
       @ ''----------'' @ newline \<and>
   column_sizes (fst (print empty_table cout0)) = [4, 3]"
proof -
  have d: "data empty_table = []" by (simp add: empty_table_def)
  have h: "headers empty_table = [''Name'', ''Age'']" by (simp add: empty_table_def)
  have r: "rule_line (size_columns empty_table) = ''----------''"
   and l: "header_line (size_columns empty_table) CHR '' '' = ''|Name|Age|''"
    using empty_lines by (simp_all add: print_lines_def)
  from print_output_structure [of cout0 empty_table] empty_valid d
  have "buf (snd (print empty_table cout0))
          = buf cout0
            @ rule_line (fst (print empty_table cout0)) @ newline
            @ header_line (fst (print empty_table cout0)) (fill cout0) @ newline
            @ rule_line (fst (print empty_table cout0)) @ newline
            @ rule_line (fst (print empty_table cout0)) @ newline"
    and "column_sizes (fst (print empty_table cout0))
          = map (\<lambda>h. of_nat (length h)) (headers empty_table)"
    by simp_all
  then show ?thesis
    by (simp add: print_fst r l h d empty_valid)
qed

text \<open>
  C8 as stated fails on a stream with a pending field width: the first line is the rule
  padded to that width, not the rule that follows the header line.
\<close>

theorem pending_width_pads_first_rule:
  "VariadicTable [StdString, Arithmetic] [''Name'', ''Age''] 0 = Inr empty_table \<and>
   valid empty_table \<and> data empty_table = [] \<and> width cout_pending = 15 \<and>
   rule_line (fst (print empty_table cout_pending)) = ''----------'' \<and>
   buf (snd (print empty_table cout_pending))
     = ''*****----------'' @ newline @ ''|Name|Age|'' @ newline @ ''----------'' @ newline
       @ ''----------'' @ newline \<and>
   buf (snd (print empty_table cout_pending))
     \<noteq> buf cout_pending
         @ rule_line (fst (print empty_table cout_pending)) @ newline
         @ header_line (fst (print empty_table cout_pending)) (fill cout_pending) @ newline
         @ rule_line (fst (print empty_table cout_pending)) @ newline
         @ concat (map (\<lambda>row. row_line (fst (print empty_table cout_pending)) (fill cout_pending) row
                               @ newline) (data empty_table))
         @ rule_line (fst (print empty_table cout_pending)) @ newline"
proof -
  have d: "data empty_table = []" by (simp add: empty_table_def)
  have w: "width cout_pending = 15" by (simp add: cout_pending_def)
  have b: "buf cout_pending = []" by (simp add: cout_pending_def)
  from empty_constructed empty_valid d w pending_rule pending_first show ?thesis
    by (simp add: pending_header b)
qed

subsection \<open>Frame conditions\<close>

text \<open>
  C9. \<open>addRow\<close> changes the row sequence only, and there only by adding the new row
  after the rows already stored: the headers, the fallback width, the column count and
  the width array stay as they were. \<open>print\<close> changes the width array only: the
  headers, the fallback width and the rows of the table it returns are those of the
  table it was given.
\<close>

theorem addRow_and_print_frame:
  "headers (addRow row t) = headers t \<and>
   static_column_size (addRow row t) = static_column_size t \<and>
   Ts (addRow row t) = Ts t \<and> num_columns (addRow row t) = num_columns t \<and>
   column_sizes (addRow row t) = column_sizes t \<and>
   take (length (data t)) (data (addRow row t)) = data t \<and>
   headers (fst (print t stream)) = headers t \<and>
   static_column_size (fst (print t stream)) = static_column_size t \<and>
   data (fst (print t stream)) = data t \<and>
   Ts (fst (print t stream)) = Ts t \<and> num_columns (fst (print t stream)) = num_columns t \<and>
   fst (print t stream) = t\<lparr>column_sizes := column_sizes (fst (print t stream))\<rparr>"
  by (simp add: addRow_def print_def size_columns_def Let_def split_beta)

subsection \<open>The centring subtraction\<close>

text \<open>
  C10 (amended). For every table and every column whose header is shorter than
  \<open>2 ^ 32\<close> characters, the width computed by \<open>size_columns\<close> is at least the header's
  length, so half the width is at least half the header's length, the subtraction
  \<open>half -= _headers[i].size() / 2\<close> does not wrap around in \<open>size_t\<close>, and the value
  stored in \<open>half\<close> is the difference of the two halves as natural numbers.
\<close>

theorem header_half_does_not_wrap:
  assumes "valid t" and "i < num_columns t" and "length (headers t ! i) < 2 ^ 32"
  shows "length (headers t ! i) \<le> unat (column_sizes (size_columns t) ! i) \<and>
         length (headers t ! i) div 2 \<le> unat (column_sizes (size_columns t) ! i) div 2 \<and>
         string_size (headers t ! i) div 2 \<le> ucast (column_sizes (size_columns t) ! i div 2) \<and>
         unat (header_half (size_columns t) i)
           = unat (column_sizes (size_columns t) ! i) div 2 - length (headers t ! i) div 2"
proof -
  note fit = header_fits [OF assms]
  from fit have "length (headers t ! i) div 2 \<le> unat (column_sizes (size_columns t) ! i) div 2"
    by (rule div_le_mono)
  with fit header_half_exact [OF assms(3) fit] show ?thesis
    by (simp add: header_half_def Let_def)
qed

theorem header_half_witness:
  "valid pets_table \<and> 0 < num_columns pets_table \<and> headers pets_table ! 0 = ''Pet'' \<and>
   column_sizes (size_columns pets_table) ! 0 = 7 \<and>
   header_half (size_columns pets_table) 0 = 2"
proof -
  have i: "0 < num_columns pets_table" by (simp add: pets_table_def)
  have h: "headers pets_table ! 0 = ''Pet''" by (simp add: pets_table_def)
  have hb: "length (headers pets_table ! 0) < 2 ^ 32" by (simp add: h)
  have w: "column_sizes (size_columns pets_table) ! 0 = 7" by (simp add: pets_widths)
  from header_half_does_not_wrap [OF pets_valid i hb]
  have "unat (header_half (size_columns pets_table) 0) = unat (2 :: uint)" by (simp add: w h)
  then have "header_half (size_columns pets_table) 0 = 2" by (simp only: word_unat_eq_iff)
  with pets_valid i h w show ?thesis by simp
qed

text \<open>
  C10 as stated fails for a header of \<open>2 ^ 32\<close> characters: the column's width is 0,
  half the header's length is \<open>2 ^ 31\<close>, and the subtraction wraps around.
\<close>

theorem long_header_half_wraps:
  "VariadicTable [StdString] [replicate (2 ^ 32) CHR ''x''] 0 = Inr long_header_table \<and>
   valid long_header_table \<and>
   column_sizes (size_columns long_header_table) ! 0 = 0 \<and>
   header_half (size_columns long_header_table) 0 = 2147483648 \<and>
   \<not> string_size (headers long_header_table ! 0) div 2
       \<le> ucast (column_sizes (size_columns long_header_table) ! 0 div 2)"
proof -
  have w: "column_sizes (size_columns long_header_table) ! 0 = 0"
    using long_width by (simp add: print_fst)
  have h: "headers long_header_table ! 0 = replicate (2 ^ 32) CHR ''x''"
    by (simp add: long_header_table_def)
  show ?thesis
    using long_constructed
    by (simp add: long_valid w header_half_def Let_def h string_size_def)
qed

end
